theory Spec2Isabelle
  imports Main
begin

section \<open>Python values, exceptions and string operations\<close>

text \<open>
  The script \<^verbatim>\<open>Mesos/utils/verify-review-requests.py\<close> is a Python 2 program. Its
  integers are unbounded (\<open>int\<close>), its strings are byte strings (\<open>string\<close>).

  Values that \<^verbatim>\<open>json.loads\<close> can return. A JSON object is kept as the sequence of
  its key/value pairs; a float is kept by its textual form, since the script never
  computes with one.
\<close>

datatype json =
    JNull
  | JBool bool
  | JInt int
  | JFloat string
  | JString string
  | JArray "json list"
  | JObject "(string \<times> json) list"

text \<open>
  The exceptions the script tells apart, each with the message it carries
  (\<^verbatim>\<open>err.args[0]\<close>, which is also \<^verbatim>\<open>str(err)\<close>):
  \<^item> \<open>ReviewError\<close>: \<^verbatim>\<open>common.ReviewError\<close>, caught by the first \<^verbatim>\<open>except\<close> clause;
  \<^item> \<open>OtherException\<close>: any other instance of \<^verbatim>\<open>Exception\<close> (\<^verbatim>\<open>ValueError\<close>,
    \<^verbatim>\<open>TypeError\<close>, \<^verbatim>\<open>IOError\<close>, ...), caught by the second clause;
  \<^item> \<open>SystemExiting\<close>: what \<^verbatim>\<open>except Exception\<close> does not catch
    (\<^verbatim>\<open>KeyboardInterrupt\<close>, \<^verbatim>\<open>SystemExit\<close>).
\<close>

datatype py_exn =
    ReviewError string
  | OtherException string
  | SystemExiting string

text \<open>\<^verbatim>\<open>str(n)\<close> for an integer: decimal digits, with a minus sign when negative.\<close>

fun str_nat :: "nat \<Rightarrow> string" where
  "str_nat n =
     (if n < 10 then [''0123456789'' ! n]
      else str_nat (n div 10) @ [''0123456789'' ! (n mod 10)])"

declare str_nat.simps [simp del]

definition str_int :: "int \<Rightarrow> string" where
  "str_int i = (if i < 0 then CHR ''-'' # str_nat (nat (- i)) else str_nat (nat i))"

text \<open>The number that a string of decimal digits denotes.\<close>

definition digits_value :: "string \<Rightarrow> nat" where
  "digits_value s = foldl (\<lambda>a c. 10 * a + (of_char c - 48)) 0 s"

text \<open>\<^verbatim>\<open>s.split(c)\<close> for a one-character separator: never empty, \<^verbatim>\<open>"".split(",") == [""]\<close>.\<close>

fun str_split :: "char \<Rightarrow> string \<Rightarrow> string list" where
  "str_split c [] = [[]]"
| "str_split c (x # xs) =
     (if x = c then [] # str_split c xs
      else (case str_split c xs of
              [] \<Rightarrow> [[x]]
            | y # ys \<Rightarrow> (x # y) # ys))"

text \<open>\<^verbatim>\<open>s.strip()\<close>: removes leading and trailing ASCII whitespace.\<close>

definition isspace :: "char \<Rightarrow> bool" where
  "isspace c \<longleftrightarrow> c \<in> {CHR '' '', CHR 0x09, CHR 0x0A, CHR 0x0B, CHR 0x0C, CHR 0x0D}"

definition strip :: "string \<Rightarrow> string" where
  "strip s = rev (dropWhile isspace (rev (dropWhile isspace s)))"

text \<open>\<^verbatim>\<open>sep.join(xs)\<close>.\<close>

fun join :: "string \<Rightarrow> string list \<Rightarrow> string" where
  "join sep [] = []"
| "join sep [x] = x"
| "join sep (x # y # ys) = x @ sep @ join sep (y # ys)"

text \<open>\<^verbatim>\<open>s.replace("%3A", ":")\<close>: every occurrence, left to right.\<close>

fun replace_3A :: "string \<Rightarrow> string" where
  "replace_3A [] = []"
| "replace_3A (x # xs) =
     (if x = CHR ''%'' \<and> take 2 xs = ''3A'' then CHR '':'' # replace_3A (drop 2 xs)
      else x # replace_3A xs)"

text \<open>
  A Python dictionary with string keys, as the list of its items. \<^verbatim>\<open>d[k] = v\<close> replaces
  the value of a key that is present and adds the item otherwise.
\<close>

type_synonym dict = "(string \<times> json) list"

fun dict_setitem :: "string \<Rightarrow> json \<Rightarrow> dict \<Rightarrow> dict" where
  "dict_setitem k v [] = [(k, v)]"
| "dict_setitem k v ((k', v') # d) =
     (if k' = k then (k', v) # d else (k', v') # dict_setitem k v d)"

section \<open>The data of the script\<close>

text \<open>
  A review request, as the tracker returns it. The script reads only its identifier
  (\<^verbatim>\<open>review_request["id"]\<close>); the collaborators may look at the rest.
\<close>

record review_request =
  id' :: int
  status :: string
  last_updated :: string

text \<open>
  The namespace that \<^verbatim>\<open>parse_parameters\<close> returns. Exactly one sub-command is
  chosen; \<^verbatim>\<open>hasattr(parameters, 'out_file')\<close> holds for the \<^verbatim>\<open>file\<close> one only.
\<close>

datatype plugin =
    FilePlugin string
  | GearmanPlugin string string "string option"

record parameters =
  user :: string
  password :: string
  reviews :: int
  query :: string
  plugin :: plugin

text \<open>A job handed to the queue client (lines 115-119).\<close>

record job =
  unique :: string
  task :: string
  data :: string

text \<open>
  What the run does to the outside: the lines it prints, the calls it makes on the
  review-board handler (in order), the files it has written, the batches it has given
  to the queue client, and how many tokens it has drawn from \<^verbatim>\<open>uuid.uuid4()\<close>.
\<close>

datatype tracker_call =
    Api string
  | NeedsVerification review_request
  | GetReviewIds review_request
  | PostReview review_request string

record world =
  stdout :: "string list"
  tracker :: "tracker_call list"
  files :: "string \<Rightarrow> string option"
  gearman :: "(string list \<times> job list) list"
  uuids :: nat

type_synonym 'a result = "world \<times> (py_exn + 'a)"

definition print :: "string \<Rightarrow> world \<Rightarrow> world" where
  "print line w = w\<lparr>stdout := stdout w @ [line]\<rparr>"

definition call :: "tracker_call \<Rightarrow> world \<Rightarrow> world" where
  "call c w = w\<lparr>tracker := tracker w @ [c]\<rparr>"

section \<open>The collaborators\<close>

text \<open>
  The module \<^verbatim>\<open>common\<close> and the libraries are not part of the script. Each of their
  operations is a parameter: a function that returns a value or the exception raised.
  The answers of the tracker are taken as fixed during one run: asking twice about the
  same review request gives the same answer. \<open>get_review_ids\<close> returns only the
  exception, since the script discards the list it computes (line 145).
\<close>

record handler =
  api :: "string \<Rightarrow> py_exn + review_request list"
  needs_verification :: "review_request \<Rightarrow> py_exn + bool"
  get_review_ids :: "review_request \<Rightarrow> py_exn option"
  post_review :: "review_request \<Rightarrow> string \<Rightarrow> py_exn option"

record env =
  json_loads :: "string \<Rightarrow> py_exn + json"
  json_dumps :: "dict \<Rightarrow> string"
  urlencode :: "json \<Rightarrow> py_exn + string"
  update_non_mapping :: "dict \<Rightarrow> json \<Rightarrow> py_exn + dict"
  REVIEWBOARD_URL :: string
  ReviewBoardHandler :: "string \<Rightarrow> string \<Rightarrow> py_exn + handler"
  open_w :: "string \<Rightarrow> py_exn option"
  trigger_gearman_jobs :: "string list \<Rightarrow> job list \<Rightarrow> py_exn option"
  uuid4_hex :: "nat \<Rightarrow> string"
  banner :: string

definition DEFAULT_GEARMAN_PORT :: int where
  "DEFAULT_GEARMAN_PORT = 4730"

section \<open>\<^verbatim>\<open>verify_reviews\<close> (lines 83-121)\<close>

text \<open>
  Lines 92-100, the body of the loop over \<^verbatim>\<open>parameters.servers.split(",")\<close>: the
  address is the text before the first colon; the port is the text after the colon
  when there is exactly one colon, and the default port otherwise.
\<close>

definition normalize_server :: "string \<Rightarrow> string" where
  "normalize_server server0 =
     (let server = strip server0;
          s_split = str_split CHR '':'' server;
          address = hd s_split;
          port = (if length s_split = 2 then s_split ! 1 else str_int DEFAULT_GEARMAN_PORT)
      in address @ '':'' @ port)"

definition normalize_servers :: "string \<Rightarrow> string list" where
  "normalize_servers servers = map normalize_server (str_split CHR '','' servers)"

text \<open>
  Line 114, \<^verbatim>\<open>job_params.update(x)\<close>: for a JSON object every pair is stored in turn
  (a later pair with the same key overrides an earlier one); what \<^verbatim>\<open>dict.update\<close>
  does with another kind of value is left to the parameter.
\<close>

definition dict_update :: "env \<Rightarrow> dict \<Rightarrow> json \<Rightarrow> py_exn + dict" where
  "dict_update env d x =
     (case x of
        JObject kvs \<Rightarrow> Inr (fold (\<lambda>(k, v). dict_setitem k v) kvs d)
      | _ \<Rightarrow> update_non_mapping env d x)"

text \<open>Lines 109-114: the parameters of the job for one review.\<close>

definition job_params :: "env \<Rightarrow> string option \<Rightarrow> string \<Rightarrow> py_exn + dict" where
  "job_params env params review_id =
     (let base = [(''REVIEW_ID'', JString review_id),
                  (''OFFLINE_NODE_WHEN_COMPLETE'', JString ''false'')]
      in case params of
           None \<Rightarrow> Inr base
         | Some p \<Rightarrow>
             (case json_loads env p of
                Inl err \<Rightarrow> Inl err
              | Inr x \<Rightarrow> dict_update env base x))"

text \<open>Lines 107-119: the loop that builds the jobs.\<close>

fun build_jobs ::
  "env \<Rightarrow> string \<Rightarrow> string option \<Rightarrow> string list \<Rightarrow> job list \<Rightarrow> world \<Rightarrow> job list result"
where
  "build_jobs env task_name params [] jobs w = (w, Inr jobs)"
| "build_jobs env task_name params (review_id # rest) jobs w =
     (let w1 = print (''Preparing build job with review id: '' @ review_id) w
      in case job_params env params review_id of
           Inl err \<Rightarrow> (w1, Inl err)
         | Inr d \<Rightarrow>
             build_jobs env task_name params rest
               (jobs @ [\<lparr>unique = uuid4_hex env (uuids w1), task = task_name,
                          data = json_dumps env d\<rparr>])
               (w1\<lparr>uuids := Suc (uuids w1)\<rparr>))"

definition verify_reviews :: "env \<Rightarrow> string list \<Rightarrow> parameters \<Rightarrow> world \<Rightarrow> unit result" where
  "verify_reviews env review_ids parameters w =
     (let nr_reviews = int (length review_ids);
          w0 = print (''There are '' @ str_int nr_reviews
                        @ '' review requests that need verification'') w
      in case plugin parameters of
           FilePlugin out_file \<Rightarrow>
             (case open_w env out_file of
                Some err \<Rightarrow> (w0, Inl err)
              | None \<Rightarrow>
                  (w0\<lparr>files := (files w0)(out_file \<mapsto> join [CHR 0x0A] review_ids)\<rparr>, Inr ()))
         | GearmanPlugin servers_arg job_arg params \<Rightarrow>
             (let servers = normalize_servers servers_arg
              in if length review_ids = 0 then (w0, Inr ())
                 else
                   (case build_jobs env (''build:'' @ job_arg) params review_ids [] w0 of
                      (w1, Inl err) \<Rightarrow> (w1, Inl err)
                    | (w1, Inr jobs) \<Rightarrow>
                        (let w2 = w1\<lparr>gearman := gearman w1 @ [(servers, jobs)]\<rparr>
                         in case trigger_gearman_jobs env servers jobs of
                              Some err \<Rightarrow> (w2, Inl err)
                            | None \<Rightarrow> (w2, Inr ())))))"

section \<open>\<^verbatim>\<open>main\<close> (lines 124-160)\<close>

text \<open>
  Lines 140-155, the \<^verbatim>\<open>try\<close> statement for one review request. It ends in one of
  three ways: by \<^verbatim>\<open>continue\<close>, by falling through to line 156 with a value of
  \<^verbatim>\<open>needs_verification\<close>, or with an exception that no clause catches.
\<close>

datatype try_exit = Continue | FallThrough bool | Propagate py_exn

definition bad_review_message :: "string \<Rightarrow> string" where
  "bad_review_message m = ''Bad review!'' @ [CHR 0x0A, CHR 0x0A] @ ''Error:'' @ [CHR 0x0A] @ m"

definition except_clauses ::
  "handler \<Rightarrow> review_request \<Rightarrow> py_exn \<Rightarrow> world \<Rightarrow> world \<times> try_exit" where
  "except_clauses h review_request err w =
     (case err of
        ReviewError m \<Rightarrow>
          (let message = bad_review_message m;
               w1 = call (PostReview review_request message) w
           in case post_review h review_request message of
                Some err' \<Rightarrow> (w1, Propagate err')
              | None \<Rightarrow> (w1, Continue))
      | OtherException m \<Rightarrow>
          (let w1 = print (''Error occured: '' @ m) w;
               w2 = print (''WARNING: Cannot find if review ''
                             @ str_int (id' review_request)
                             @ '' needs verification'') w1
           in (w2, FallThrough False))
      | SystemExiting m \<Rightarrow> (w, Propagate err))"

definition try_block :: "handler \<Rightarrow> review_request \<Rightarrow> world \<Rightarrow> world \<times> try_exit" where
  "try_block h review_request w =
     (let w1 = call (NeedsVerification review_request) w
      in case needs_verification h review_request of
           Inl err \<Rightarrow> except_clauses h review_request err w1
         | Inr nv \<Rightarrow>
             if \<not> nv then (w1, Continue)
             else
               (let w2 = call (GetReviewIds review_request) w1
                in case get_review_ids h review_request of
                     Some err \<Rightarrow> except_clauses h review_request err w2
                   | None \<Rightarrow> (w2, FallThrough nv)))"

text \<open>
  Lines 138-159: the loop over the reversed list. \<open>cap\<close> is \<^verbatim>\<open>parameters.reviews\<close>.
  The loop has no \<^verbatim>\<open>break\<close>: once the cap is reached the remaining requests are
  still iterated over, and line 139 skips each of them.
\<close>

fun for_review_requests ::
  "handler \<Rightarrow> int \<Rightarrow> review_request list \<Rightarrow> int \<Rightarrow> string list \<Rightarrow> world
     \<Rightarrow> (int \<times> string list) result"
where
  "for_review_requests h cap [] num_reviews review_ids w = (w, Inr (num_reviews, review_ids))"
| "for_review_requests h cap (review_request # rest) num_reviews review_ids w =
     (if cap = - 1 \<or> num_reviews < cap then
        (case try_block h review_request w of
           (w1, Propagate err) \<Rightarrow> (w1, Inl err)
         | (w1, Continue) \<Rightarrow> for_review_requests h cap rest num_reviews review_ids w1
         | (w1, FallThrough nv) \<Rightarrow>
             if \<not> nv then for_review_requests h cap rest num_reviews review_ids w1
             else for_review_requests h cap rest (num_reviews + 1)
                    (review_ids @ [str_int (id' review_request)]) w1)
      else for_review_requests h cap rest num_reviews review_ids w)"

definition main :: "env \<Rightarrow> parameters \<Rightarrow> world \<Rightarrow> unit result" where
  "main env parameters w =
     (let w0 = print (banner env) w
      in case json_loads env (query parameters) of
           Inl err \<Rightarrow> (w0, Inl err)
         | Inr q \<Rightarrow>
             (case urlencode env q of
                Inl err \<Rightarrow> (w0, Inl err)
              | Inr encoded \<Rightarrow>
                  (let query_string = replace_3A encoded;
                       review_requests_url =
                         REVIEWBOARD_URL env @ ''/api/review-requests/?'' @ query_string
                   in case ReviewBoardHandler env (user parameters) (password parameters) of
                        Inl err \<Rightarrow> (w0, Inl err)
                      | Inr h \<Rightarrow>
                          (let w1 = call (Api review_requests_url) w0
                           in case api h review_requests_url of
                                Inl err \<Rightarrow> (w1, Inl err)
                              | Inr review_requests \<Rightarrow>
                                  (case for_review_requests h (reviews parameters)
                                          (rev review_requests) 0 [] w1 of
                                     (w2, Inl err) \<Rightarrow> (w2, Inl err)
                                   | (w2, Inr (num_reviews, review_ids)) \<Rightarrow>
                                       verify_reviews env review_ids parameters w2)))))"

section \<open>The terms of the specification\<close>

text \<open>
  The exception, if any, that the body of the \<^verbatim>\<open>try\<close> statement raises for a review
  request: from \<^verbatim>\<open>needs_verification\<close>, or from \<^verbatim>\<open>get_review_ids\<close> when the
  request needs verification.
\<close>

definition raised :: "handler \<Rightarrow> review_request \<Rightarrow> py_exn option" where
  "raised h r =
     (case needs_verification h r of
        Inl err \<Rightarrow> Some err
      | Inr nv \<Rightarrow> if nv then get_review_ids h r else None)"

text \<open>
  A review request qualifies when the needs-verification predicate returns true and
  resolving its dependency chain raises nothing.
\<close>

definition qualifies :: "handler \<Rightarrow> review_request \<Rightarrow> bool" where
  "qualifies h r \<longleftrightarrow> needs_verification h r = Inr True \<and> get_review_ids h r = None"

text \<open>
  The run survives a review request when examining it lets no exception escape: nothing
  outside \<^verbatim>\<open>Exception\<close> is raised, and the comment for a cyclic dependency can be
  posted.
\<close>

definition survives :: "handler \<Rightarrow> review_request \<Rightarrow> bool" where
  "survives h r =
     (case raised h r of
        Some (ReviewError m) \<Rightarrow> post_review h r (bad_review_message m) = None
      | Some (SystemExiting m) \<Rightarrow> False
      | _ \<Rightarrow> True)"

text \<open>Truncation at the cap, where \<open>- 1\<close> stands for no cap.\<close>

definition truncate_at_cap :: "int \<Rightarrow> 'a list \<Rightarrow> 'a list" where
  "truncate_at_cap cap xs = (if cap = - 1 then xs else take (nat cap) xs)"

text \<open>
  The identifiers the specification expects to be dispatched: the qualifying requests,
  in reverse of the fetch order, truncated at the cap.
\<close>

definition spec_dispatched :: "handler \<Rightarrow> int \<Rightarrow> review_request list \<Rightarrow> string list" where
  "spec_dispatched h cap fetched =
     truncate_at_cap cap (map (\<lambda>r. str_int (id' r)) (filter (qualifies h) (rev fetched)))"

text \<open>
  The base parameters of a job, and the mapping that a JSON object denotes (where the
  text repeats a key, the last value counts).
\<close>

definition base_params :: "string \<Rightarrow> dict" where
  "base_params review_id =
     [(''REVIEW_ID'', JString review_id), (''OFFLINE_NODE_WHEN_COMPLETE'', JString ''false'')]"

definition mapping_of_object :: "(string \<times> json) list \<Rightarrow> string \<Rightarrow> json option" where
  "mapping_of_object kvs = map_of (rev kvs)"

section \<open>Example collaborators\<close>

text \<open>
  A concrete tracker with five pending review requests, fetched newest first: request 1
  and request 5 qualify, request 2 needs no verification, the status of request 3 cannot
  be read, and request 4 has a cyclic dependency chain.
\<close>

definition rq :: "int \<Rightarrow> review_request" where
  "rq n = \<lparr>id' = n, status = ''pending'', last_updated = ''2017-03-01T10:00:00''\<rparr>"

definition demo_fetched :: "review_request list" where
  "demo_fetched = [rq 5, rq 4, rq 3, rq 2, rq 1]"

definition demo_handler :: handler where
  "demo_handler =
     \<lparr>api = (\<lambda>url. Inr demo_fetched),
      needs_verification =
        (\<lambda>r. if id' r = 3 then Inl (OtherException ''HTTP Error 500'') else Inr (id' r \<noteq> 2)),
      get_review_ids =
        (\<lambda>r. if id' r = 4 then Some (ReviewError ''Circular dependency detected'') else None),
      post_review = (\<lambda>r m. None)\<rparr>"

text \<open>
  Concrete libraries. \<open>demo_loads\<close> agrees with \<^verbatim>\<open>json.loads\<close> on the texts used below
  (two JSON objects, and a text that is not JSON, for which \<^verbatim>\<open>json.loads\<close> raises
  \<^verbatim>\<open>ValueError\<close>), the wording of the error message aside. The serialiser and the
  token generator of \<open>demo_env\<close> are simple stand-ins: no theorem depends on what they
  return.
\<close>

definition demo_query :: string where
  \<open>demo_query = ''{"status": "pending"}''\<close>

definition demo_extra :: string where
  \<open>demo_extra = ''{"OFFLINE_NODE_WHEN_COMPLETE": "true", "NODE": "n1"}''\<close>

definition not_json :: string where
  \<open>not_json = ''{OFFLINE_NODE_WHEN_COMPLETE=true''\<close>

definition demo_loads :: "string \<Rightarrow> py_exn + json" where
  "demo_loads s =
     (if s = demo_query then Inr (JObject [(''status'', JString ''pending'')])
      else if s = demo_extra then
        Inr (JObject [(''OFFLINE_NODE_WHEN_COMPLETE'', JString ''true''),
                      (''NODE'', JString ''n1'')])
      else Inl (OtherException ''No JSON object could be decoded''))"

definition demo_text :: "json \<Rightarrow> string" where
  "demo_text v = (case v of JString s \<Rightarrow> s | _ \<Rightarrow> ''?'')"

definition demo_env :: env where
  "demo_env =
     \<lparr>json_loads = demo_loads,
      json_dumps = (\<lambda>d. join '','' (map (\<lambda>(k, v). k @ '':'' @ demo_text v) d)),
      urlencode =
        (\<lambda>q. case q of
               JObject kvs \<Rightarrow> Inr (join ''&'' (map (\<lambda>(k, v). k @ ''='' @ demo_text v) kvs))
             | _ \<Rightarrow> Inl (OtherException ''not a valid non-string sequence or mapping object'')),
      update_non_mapping = (\<lambda>d x. Inl (OtherException ''cannot convert dictionary update sequence'')),
      REVIEWBOARD_URL = ''https://reviews.apache.org'',
      ReviewBoardHandler = (\<lambda>u p. Inr demo_handler),
      open_w = (\<lambda>path. None),
      trigger_gearman_jobs = (\<lambda>servers jobs. None),
      uuid4_hex = (\<lambda>n. ''token'' @ str_nat n),
      banner = ''Running verify-review-requests.py''\<rparr>"

definition world0 :: world where
  "world0 = \<lparr>stdout = [], tracker = [], files = Map.empty, gearman = [], uuids = 0\<rparr>"

definition demo_parameters :: "int \<Rightarrow> plugin \<Rightarrow> parameters" where
  "demo_parameters cap chosen =
     \<lparr>user = ''jenkins'', password = ''secret'', reviews = cap, query = demo_query,
      plugin = chosen\<rparr>"

section \<open>Facts about the string operations\<close>

lemma str_int_digit: "0 \<le> i \<Longrightarrow> i < 10 \<Longrightarrow> str_int i = [''0123456789'' ! nat i]"
  by (simp add: str_int_def str_nat.simps)

lemma digit_char_value: "k < 10 \<Longrightarrow> of_char (''0123456789'' ! k) = (48::nat) + k"
proof -
  assume "k < 10"
  then have "k \<in> {0, 1, 2, 3, 4, 5, 6, 7, 8, 9}" by auto
  then show ?thesis by auto
qed

lemma digit_char_member: "k < 10 \<Longrightarrow> ''0123456789'' ! k \<in> set ''0123456789''"
  by (rule nth_mem) simp

lemma digits_value_str_nat: "digits_value (str_nat n) = n"
proof (induction n rule: str_nat.induct)
  case (1 n)
  show ?case
  proof (cases "n < 10")
    case True
    then show ?thesis
      by (simp add: str_nat.simps[of n] digits_value_def digit_char_value)
  next
    case False
    have "digits_value (str_nat n)
            = 10 * digits_value (str_nat (n div 10)) + (of_char (''0123456789'' ! (n mod 10)) - 48)"
      using False by (simp add: str_nat.simps[of n] digits_value_def)
    also have "\<dots> = 10 * (n div 10) + n mod 10"
      using "1.IH"[OF False] by (simp add: digit_char_value)
    finally show ?thesis by simp
  qed
qed

lemma str_nat_chars: "set (str_nat n) \<subseteq> set ''0123456789''"
proof (induction n rule: str_nat.induct)
  case (1 n)
  show ?case
  proof (cases "n < 10")
    case True
    then show ?thesis
      using digit_char_member[of n] by (simp add: str_nat.simps[of n])
  next
    case False
    have "n mod 10 < 10" by simp
    from digit_char_member[OF this] "1.IH"[OF False] False
    show ?thesis by (simp add: str_nat.simps[of n])
  qed
qed

lemma str_int_inj: "str_int i = str_int j \<Longrightarrow> i = j"
proof -
  assume eq: "str_int i = str_int j"
  have no_minus: "CHR ''-'' # s \<noteq> str_nat k" for s k
  proof
    assume "CHR ''-'' # s = str_nat k"
    then have "CHR ''-'' \<in> set (str_nat k)" by (metis list.set_intros(1))
    with str_nat_chars[of k] show False by auto
  qed
  show ?thesis
  proof (cases "i < 0")
    case True
    show ?thesis
    proof (cases "j < 0")
      case jneg: True
      from eq True jneg have "str_nat (nat (- i)) = str_nat (nat (- j))"
        by (simp add: str_int_def)
      then have "digits_value (str_nat (nat (- i))) = digits_value (str_nat (nat (- j)))"
        by simp
      then have "nat (- i) = nat (- j)" by (simp add: digits_value_str_nat)
      with True jneg show ?thesis by simp
    next
      case False
      with eq True no_minus show ?thesis by (simp add: str_int_def)
    qed
  next
    case False
    show ?thesis
    proof (cases "j < 0")
      case True
      with eq False no_minus[of "str_nat (nat (- j))" "nat i"] show ?thesis
        by (simp add: str_int_def)
    next
      case jpos: False
      from eq False jpos have "str_nat (nat i) = str_nat (nat j)"
        by (simp add: str_int_def)
      then have "digits_value (str_nat (nat i)) = digits_value (str_nat (nat j))"
        by simp
      then have "nat i = nat j" by (simp add: digits_value_str_nat)
      with False jpos show ?thesis by simp
    qed
  qed
qed

section \<open>Facts about the selection loop\<close>

lemma try_block_qualifies:
  "qualifies h r \<Longrightarrow>
   try_block h r w = (call (GetReviewIds r) (call (NeedsVerification r) w), FallThrough True)"
  by (simp add: qualifies_def try_block_def)

lemma try_block_not_qualifies:
  "\<not> qualifies h r \<Longrightarrow> snd (try_block h r w) \<noteq> FallThrough True"
  by (auto simp add: qualifies_def try_block_def except_clauses_def Let_def
      split: sum.splits option.splits py_exn.splits)

lemma try_block_survives:
  "survives h r \<Longrightarrow> snd (try_block h r w) \<noteq> Propagate err"
  by (auto simp add: survives_def raised_def try_block_def except_clauses_def Let_def
      split: sum.splits option.splits py_exn.splits if_splits)

lemma loop_cap_reached:
  "cap \<noteq> - 1 \<Longrightarrow> \<not> num < cap \<Longrightarrow>
   for_review_requests h cap rs num ids w = (w, Inr (num, ids))"
  by (induction rs) simp_all

lemma loop_result:
  "for_review_requests h cap rs num ids w = (w', Inr (num', ids')) \<Longrightarrow>
   ids' = ids @ map (\<lambda>r. str_int (id' r))
            (if cap = - 1 then filter (qualifies h) rs
             else take (nat (cap - num)) (filter (qualifies h) rs))"
proof (induction rs arbitrary: num ids w)
  case Nil
  then show ?case by simp
next
  case (Cons r rs)
  show ?case
  proof (cases "cap = - 1 \<or> num < cap")
    case False
    then have "for_review_requests h cap rs num ids w = (w', Inr (num', ids'))"
      using Cons.prems by simp
    from Cons.IH[OF this] False show ?thesis by simp
  next
    case True
    show ?thesis
    proof (cases "qualifies h r")
      case q: True
      have "for_review_requests h cap rs (num + 1) (ids @ [str_int (id' r)])
              (call (GetReviewIds r) (call (NeedsVerification r) w)) = (w', Inr (num', ids'))"
        using Cons.prems True q by (simp add: try_block_qualifies)
      moreover have "cap \<noteq> - 1 \<Longrightarrow> nat (cap - num) = Suc (nat (cap - (num + 1)))"
        using True by auto
      ultimately show ?thesis
        using Cons.IH[of "num + 1" "ids @ [str_int (id' r)]"] q by auto
    next
      case nq: False
      obtain w1 ex where tb: "try_block h r w = (w1, ex)" by (cases "try_block h r w")
      with try_block_not_qualifies[OF nq, of w] have ne: "ex \<noteq> FallThrough True" by simp
      have "for_review_requests h cap rs num ids w1 = (w', Inr (num', ids'))"
        using Cons.prems True tb ne by (cases ex) (auto split: if_splits)
      from Cons.IH[OF this] nq show ?thesis by simp
    qed
  qed
qed

lemma loop_count:
  "for_review_requests h cap rs num ids w = (w', Inr (num', ids')) \<Longrightarrow>
   num' - num = int (length ids') - int (length ids)"
proof (induction rs arbitrary: num ids w)
  case Nil
  then show ?case by simp
next
  case (Cons r rs)
  obtain w1 ex where tb: "try_block h r w = (w1, ex)" by (cases "try_block h r w")
  show ?case
  proof (cases "cap = - 1 \<or> num < cap")
    case False
    then show ?thesis using Cons.prems Cons.IH[of num ids w] by simp
  next
    case True
    show ?thesis
    proof (cases ex)
      case Continue
      then show ?thesis using Cons.prems Cons.IH[of num ids w1] True tb by simp
    next
      case (FallThrough nv)
      then show ?thesis
        using Cons.prems Cons.IH[of num ids w1]
          Cons.IH[of "num + 1" "ids @ [str_int (id' r)]" w1] True tb
        by (cases nv) auto
    next
      case (Propagate e)
      then show ?thesis using Cons.prems True tb by simp
    qed
  qed
qed

lemma loop_completes:
  "\<forall>r\<in>set rs. survives h r \<Longrightarrow>
   \<exists>w' res. for_review_requests h cap rs num ids w = (w', Inr res)"
proof (induction rs arbitrary: num ids w)
  case Nil
  then show ?case by simp
next
  case (Cons r rs)
  obtain w1 ex where tb: "try_block h r w = (w1, ex)" by (cases "try_block h r w")
  from Cons.prems have "survives h r" by simp
  from try_block_survives[OF this, of w] tb have np: "\<And>e. ex \<noteq> Propagate e" by simp
  from Cons.prems have rest: "\<forall>r\<in>set rs. survives h r" by simp
  show ?case
  proof (cases "cap = - 1 \<or> num < cap")
    case False
    then show ?thesis using Cons.IH[OF rest, of num ids w] by simp
  next
    case True
    show ?thesis
    proof (cases ex)
      case Continue
      then show ?thesis using Cons.IH[OF rest, of num ids w1] True tb by simp
    next
      case (FallThrough nv)
      then show ?thesis
        using Cons.IH[OF rest, of num ids w1]
          Cons.IH[OF rest, of "num + 1" "ids @ [str_int (id' r)]" w1] True tb
        by (cases nv) auto
    next
      case (Propagate e)
      with np[of e] show ?thesis by simp
    qed
  qed
qed

lemma main_after_fetch:
  assumes "json_loads env (query p) = Inr q"
    and "urlencode env q = Inr encoded"
    and "ReviewBoardHandler env (user p) (password p) = Inr h"
    and "api h (REVIEWBOARD_URL env @ ''/api/review-requests/?'' @ replace_3A encoded) = Inr fetched"
  shows "main env p w =
     (case for_review_requests h (reviews p) (rev fetched) 0 []
             (call (Api (REVIEWBOARD_URL env @ ''/api/review-requests/?'' @ replace_3A encoded))
                (print (banner env) w)) of
        (w2, Inl err) \<Rightarrow> (w2, Inl err)
      | (w2, Inr (num_reviews, review_ids)) \<Rightarrow> verify_reviews env review_ids p w2)"
  using assms by (simp add: main_def Let_def)

lemma loop_from_start:
  "for_review_requests h cap (rev fetched) 0 [] w = (w', Inr (n, ids)) \<Longrightarrow>
   ids = spec_dispatched h cap fetched"
  using loop_result[of h cap "rev fetched" 0 "[]" w w' n ids]
  by (simp add: spec_dispatched_def truncate_at_cap_def take_map)

text \<open>
  Claim C1. Once the query is parsed and the review requests are fetched, the run either
  ends with an exception that escapes the selection loop, or hands to \<open>verify_reviews\<close>
  exactly the identifiers of the fetched requests for which the needs-verification
  predicate returns true and the dependency chain resolves without an error, in reverse
  of the fetch order and truncated at the cap. When no exception escapes, the second
  case is the one that happens.
\<close>

theorem dispatched_identifiers_exact:
  assumes "json_loads env (query p) = Inr q"
    and "urlencode env q = Inr encoded"
    and "ReviewBoardHandler env (user p) (password p) = Inr h"
    and "api h (REVIEWBOARD_URL env @ ''/api/review-requests/?'' @ replace_3A encoded) = Inr fetched"
  shows "main env p w =
           (case for_review_requests h (reviews p) (rev fetched) 0 []
                   (call (Api (REVIEWBOARD_URL env @ ''/api/review-requests/?'' @ replace_3A encoded))
                      (print (banner env) w)) of
              (w2, Inl err) \<Rightarrow> (w2, Inl err)
            | (w2, Inr fin) \<Rightarrow>
                verify_reviews env (spec_dispatched h (reviews p) fetched) p w2)
         \<and> ((\<forall>r\<in>set fetched. survives h r) \<longrightarrow>
              (\<exists>w2. main env p w =
                      verify_reviews env (spec_dispatched h (reviews p) fetched) p w2))"
proof -
  let ?w1 = "call (Api (REVIEWBOARD_URL env @ ''/api/review-requests/?'' @ replace_3A encoded))
               (print (banner env) w)"
  let ?loop = "for_review_requests h (reviews p) (rev fetched) 0 [] ?w1"
  have m: "main env p w =
     (case ?loop of
        (w2, Inl err) \<Rightarrow> (w2, Inl err)
      | (w2, Inr (num_reviews, review_ids)) \<Rightarrow> verify_reviews env review_ids p w2)"
    using assms by (rule main_after_fetch)
  have first: "main env p w =
           (case ?loop of
              (w2, Inl err) \<Rightarrow> (w2, Inl err)
            | (w2, Inr fin) \<Rightarrow>
                verify_reviews env (spec_dispatched h (reviews p) fetched) p w2)"
  proof (cases ?loop)
    case (Pair w2 res)
    show ?thesis
    proof (cases res)
      case (Inl err)
      with Pair m show ?thesis by simp
    next
      case (Inr fin)
      obtain n ids where d: "fin = (n, ids)" by (cases fin)
      with Pair Inr have "?loop = (w2, Inr (n, ids))" by simp
      then have "ids = spec_dispatched h (reviews p) fetched" by (rule loop_from_start)
      with Pair Inr d m show ?thesis by simp
    qed
  qed
  have second: "\<exists>w2. main env p w =
                      verify_reviews env (spec_dispatched h (reviews p) fetched) p w2"
    if "\<forall>r\<in>set fetched. survives h r"
  proof -
    from that have "\<forall>r\<in>set (rev fetched). survives h r" by simp
    from loop_completes[OF this, of "reviews p" 0 "[]" ?w1]
    obtain w2 res where "?loop = (w2, Inr res)" by blast
    with first show ?thesis by auto
  qed
  from first second show ?thesis by blast
qed

lemma demo_survives: "\<forall>r\<in>set demo_fetched. survives demo_handler r"
  by (simp add: demo_fetched_def survives_def raised_def demo_handler_def rq_def)

lemma demo_spec_dispatched: "spec_dispatched demo_handler 1 demo_fetched = [''1'']"
  by (simp add: spec_dispatched_def truncate_at_cap_def demo_fetched_def qualifies_def
      demo_handler_def rq_def str_int_digit)

theorem dispatched_identifiers_exact_witness:
  "snd (main demo_env (demo_parameters 1 (FilePlugin ''out.txt'')) world0) = Inr () \<and>
   files (fst (main demo_env (demo_parameters 1 (FilePlugin ''out.txt'')) world0)) ''out.txt''
     = Some ''1''"
proof -
  let ?p = "demo_parameters 1 (FilePlugin ''out.txt'')"
  have 1: "json_loads demo_env (query ?p) = Inr (JObject [(''status'', JString ''pending'')])"
    by (simp add: demo_env_def demo_parameters_def demo_loads_def)
  have 2: "urlencode demo_env (JObject [(''status'', JString ''pending'')]) = Inr ''status=pending''"
    by (simp add: demo_env_def demo_text_def)
  have 3: "ReviewBoardHandler demo_env (user ?p) (password ?p) = Inr demo_handler"
    by (simp add: demo_env_def)
  have 4: "api demo_handler (REVIEWBOARD_URL demo_env @ ''/api/review-requests/?''
             @ replace_3A ''status=pending'') = Inr demo_fetched"
    by (simp add: demo_handler_def)
  have 5: "reviews ?p = 1"
    by (simp add: demo_parameters_def)
  from dispatched_identifiers_exact[OF 1 2 3 4, of world0]
  have "(\<forall>r\<in>set demo_fetched. survives demo_handler r) \<longrightarrow>
        (\<exists>w2. main demo_env ?p world0 =
           verify_reviews demo_env (spec_dispatched demo_handler (reviews ?p) demo_fetched) ?p w2)"
    by (rule conjunct2)
  with demo_survives have "\<exists>w2. main demo_env ?p world0 = verify_reviews demo_env [''1''] ?p w2"
    by (simp only: 5 demo_spec_dispatched)
  then obtain w2 where "main demo_env ?p world0 = verify_reviews demo_env [''1''] ?p w2" ..
  then show ?thesis
    by (simp add: verify_reviews_def demo_env_def demo_parameters_def Let_def)
qed

lemma demo_loop_unbounded:
  "snd (for_review_requests demo_handler (- 1) (rev demo_fetched) 0 [] world0)
     = Inr (2, [''1'', ''5''])"
  by (simp add: demo_fetched_def demo_handler_def rq_def try_block_def except_clauses_def
      Let_def str_int_digit)

lemma demo_loop_capped:
  "snd (for_review_requests demo_handler 1 (rev demo_fetched) 0 [] world0)
     = Inr (1, [''1''])"
  by (simp add: demo_fetched_def demo_handler_def rq_def try_block_def except_clauses_def
      Let_def str_int_digit)

text \<open>
  Claim C3. With the cap \<open>- 1\<close> the loop selects every qualifying review request; with
  the cap \<open>0\<close> it selects none and calls nothing; with a cap \<open>k > 0\<close> it selects at
  most \<open>k\<close>, namely the first \<open>k\<close> qualifying ones, and once \<open>k\<close> are selected the
  rest of the loop changes nothing. The loop ends normally whenever no exception escapes.
\<close>

theorem cap_semantics:
  "(\<forall>w' n ids. for_review_requests h (- 1) (rev fetched) 0 [] w = (w', Inr (n, ids)) \<longrightarrow>
       ids = map (\<lambda>r. str_int (id' r)) (filter (qualifies h) (rev fetched)))
   \<and> for_review_requests h 0 (rev fetched) 0 [] w = (w, Inr (0, []))
   \<and> (\<forall>w' n ids. 0 < k \<and> for_review_requests h k (rev fetched) 0 [] w = (w', Inr (n, ids)) \<longrightarrow>
       length ids \<le> nat k \<and> n = int (length ids) \<and>
       ids = take (nat k) (map (\<lambda>r. str_int (id' r)) (filter (qualifies h) (rev fetched))))
   \<and> (\<forall>rest ids. 0 < k \<longrightarrow> for_review_requests h k rest k ids w = (w, Inr (k, ids)))
   \<and> ((\<forall>r\<in>set fetched. survives h r) \<longrightarrow>
       (\<exists>w' n ids. for_review_requests h cap (rev fetched) 0 [] w = (w', Inr (n, ids))))"
proof (intro conjI allI impI)
  fix w' n ids
  assume "for_review_requests h (- 1) (rev fetched) 0 [] w = (w', Inr (n, ids))"
  from loop_result[OF this] show "ids = map (\<lambda>r. str_int (id' r)) (filter (qualifies h) (rev fetched))"
    by simp
next
  show "for_review_requests h 0 (rev fetched) 0 [] w = (w, Inr (0, []))"
    by (rule loop_cap_reached) simp_all
next
  fix w' n ids
  assume a: "0 < k \<and> for_review_requests h k (rev fetched) 0 [] w = (w', Inr (n, ids))"
  then have run: "for_review_requests h k (rev fetched) 0 [] w = (w', Inr (n, ids))" and k: "0 < k"
    by simp_all
  from loop_result[OF run] k
  show eq: "ids = take (nat k) (map (\<lambda>r. str_int (id' r)) (filter (qualifies h) (rev fetched)))"
    by (simp add: take_map)
  then show "length ids \<le> nat k"
    by (metis length_take min.cobounded2)
  from loop_count[OF run] show "n = int (length ids)" by simp
next
  fix rest ids
  assume "0 < k"
  then show "for_review_requests h k rest k ids w = (w, Inr (k, ids))"
    by (intro loop_cap_reached) simp_all
next
  assume "\<forall>r\<in>set fetched. survives h r"
  then have "\<forall>r\<in>set (rev fetched). survives h r" by simp
  from loop_completes[OF this, of cap 0 "[]" w]
  show "\<exists>w' n ids. for_review_requests h cap (rev fetched) 0 [] w = (w', Inr (n, ids))"
    by auto
qed

theorem cap_semantics_witness:
  "map (\<lambda>r. str_int (id' r)) (filter (qualifies demo_handler) (rev demo_fetched)) = [''1'', ''5'']
   \<and> for_review_requests demo_handler 0 (rev demo_fetched) 0 [] world0 = (world0, Inr (0, []))
   \<and> take (nat 1) (map (\<lambda>r. str_int (id' r)) (filter (qualifies demo_handler) (rev demo_fetched)))
       = [''1'']
   \<and> (\<exists>w' n ids. for_review_requests demo_handler 1 (rev demo_fetched) 0 [] world0
          = (w', Inr (n, ids)))"
proof -
  let ?all = "for_review_requests demo_handler (- 1) (rev demo_fetched) 0 [] world0"
  let ?one = "for_review_requests demo_handler 1 (rev demo_fetched) 0 [] world0"
  have a: "?all = (fst ?all, Inr (2, [''1'', ''5'']))"
    using demo_loop_unbounded by (simp add: prod_eq_iff)
  have b: "(0::int) < 1 \<and> ?one = (fst ?one, Inr (1, [''1'']))"
    using demo_loop_capped by (simp add: prod_eq_iff)
  from cap_semantics[of demo_handler demo_fetched world0 1 1] a b demo_survives
  show ?thesis by metis
qed

text \<open>
  Claim C10. A negative cap other than \<open>- 1\<close> behaves like the cap \<open>0\<close>: the loop selects
  nothing and calls nothing, and \<open>verify_reviews\<close> is given the empty list.
\<close>

theorem negative_cap_selects_nothing:
  assumes "reviews p < 0" and "reviews p \<noteq> - 1"
    and "json_loads env (query p) = Inr q"
    and "urlencode env q = Inr encoded"
    and "ReviewBoardHandler env (user p) (password p) = Inr h"
    and "api h (REVIEWBOARD_URL env @ ''/api/review-requests/?'' @ replace_3A encoded) = Inr fetched"
  shows "for_review_requests h (reviews p) (rev fetched) 0 [] w' = (w', Inr (0, []))
         \<and> main env p w =
             verify_reviews env [] p
               (call (Api (REVIEWBOARD_URL env @ ''/api/review-requests/?'' @ replace_3A encoded))
                  (print (banner env) w))"
proof -
  have idle: "for_review_requests h (reviews p) (rev fetched) 0 [] v = (v, Inr (0, []))" for v
    using assms(1,2) by (intro loop_cap_reached) simp_all
  have "main env p w =
     (case for_review_requests h (reviews p) (rev fetched) 0 []
             (call (Api (REVIEWBOARD_URL env @ ''/api/review-requests/?'' @ replace_3A encoded))
                (print (banner env) w)) of
        (w2, Inl err) \<Rightarrow> (w2, Inl err)
      | (w2, Inr (num_reviews, review_ids)) \<Rightarrow> verify_reviews env review_ids p w2)"
    using assms(3-6) by (rule main_after_fetch)
  then show ?thesis by (simp add: idle)
qed

lemma demo_startup:
  "json_loads demo_env (query (demo_parameters cap chosen))
     = Inr (JObject [(''status'', JString ''pending'')])"
  "urlencode demo_env (JObject [(''status'', JString ''pending'')]) = Inr ''status=pending''"
  "ReviewBoardHandler demo_env (user (demo_parameters cap chosen))
     (password (demo_parameters cap chosen)) = Inr demo_handler"
  "api demo_handler (REVIEWBOARD_URL demo_env @ ''/api/review-requests/?''
     @ replace_3A ''status=pending'') = Inr demo_fetched"
  by (simp_all add: demo_env_def demo_parameters_def demo_loads_def demo_text_def demo_handler_def)

theorem negative_cap_selects_nothing_witness:
  "snd (main demo_env (demo_parameters (- 2) (GearmanPlugin ''127.0.0.1'' ''mesos'' None)) world0)
     = Inr ()
   \<and> gearman (fst (main demo_env
        (demo_parameters (- 2) (GearmanPlugin ''127.0.0.1'' ''mesos'' None)) world0)) = []
   \<and> tracker (fst (main demo_env
        (demo_parameters (- 2) (GearmanPlugin ''127.0.0.1'' ''mesos'' None)) world0))
       = [Api ''https://reviews.apache.org/api/review-requests/?status=pending'']"
proof -
  let ?p = "demo_parameters (- 2) (GearmanPlugin ''127.0.0.1'' ''mesos'' None)"
  have 1: "reviews ?p < 0" and 2: "reviews ?p \<noteq> - 1"
    by (simp_all add: demo_parameters_def)
  from negative_cap_selects_nothing[OF 1 2 demo_startup, of world0 world0]
  show ?thesis
    by (simp add: verify_reviews_def demo_parameters_def demo_env_def world0_def call_def
        print_def Let_def)
qed

lemma try_block_stdout: "\<exists>out. stdout (fst (try_block h r w)) = stdout w @ out"
  by (simp add: try_block_def except_clauses_def Let_def print_def call_def
      split: sum.splits option.splits py_exn.splits)

lemma try_block_tracker: "\<exists>calls. tracker (fst (try_block h r w)) = tracker w @ calls"
  by (simp add: try_block_def except_clauses_def Let_def print_def call_def
      split: sum.splits option.splits py_exn.splits)

lemma loop_stdout:
  "\<exists>out. stdout (fst (for_review_requests h cap rs num ids w)) = stdout w @ out"
proof (induction rs arbitrary: num ids w)
  case Nil
  then show ?case by simp
next
  case (Cons r rs)
  obtain w1 ex where tb: "try_block h r w = (w1, ex)" by (cases "try_block h r w")
  from try_block_stdout[of h r w] tb obtain out1 where o1: "stdout w1 = stdout w @ out1"
    by auto
  have step: "\<exists>out. stdout (fst (for_review_requests h cap rs n i w1)) = stdout w @ out" for n i
  proof -
    from Cons.IH[of n i w1] obtain out2
      where "stdout (fst (for_review_requests h cap rs n i w1)) = stdout w1 @ out2" by blast
    with o1 show ?thesis by simp
  qed
  show ?case
  proof (cases "cap = - 1 \<or> num < cap")
    case False
    then show ?thesis using Cons.IH[of num ids w] by simp
  next
    case True
    show ?thesis
    proof (cases ex)
      case Continue
      then show ?thesis using True tb step[of num ids] by simp
    next
      case (FallThrough nv)
      then show ?thesis
        using True tb step[of num ids] step[of "num + 1" "ids @ [str_int (id' r)]"]
        by (cases nv) simp_all
    next
      case (Propagate e)
      then show ?thesis using True tb o1 by simp
    qed
  qed
qed

lemma loop_tracker:
  "\<exists>calls. tracker (fst (for_review_requests h cap rs num ids w)) = tracker w @ calls"
proof (induction rs arbitrary: num ids w)
  case Nil
  then show ?case by simp
next
  case (Cons r rs)
  obtain w1 ex where tb: "try_block h r w = (w1, ex)" by (cases "try_block h r w")
  from try_block_tracker[of h r w] tb obtain c1 where o1: "tracker w1 = tracker w @ c1"
    by auto
  have step: "\<exists>calls. tracker (fst (for_review_requests h cap rs n i w1)) = tracker w @ calls"
    for n i
  proof -
    from Cons.IH[of n i w1] obtain c2
      where "tracker (fst (for_review_requests h cap rs n i w1)) = tracker w1 @ c2" by blast
    with o1 show ?thesis by simp
  qed
  show ?case
  proof (cases "cap = - 1 \<or> num < cap")
    case False
    then show ?thesis using Cons.IH[of num ids w] by simp
  next
    case True
    show ?thesis
    proof (cases ex)
      case Continue
      then show ?thesis using True tb step[of num ids] by simp
    next
      case (FallThrough nv)
      then show ?thesis
        using True tb step[of num ids] step[of "num + 1" "ids @ [str_int (id' r)]"]
        by (cases nv) simp_all
    next
      case (Propagate e)
      then show ?thesis using True tb o1 by simp
    qed
  qed
qed

lemma try_block_other_exception:
  assumes "raised h r = Some (OtherException m)"
  shows "try_block h r w =
     (w\<lparr>stdout := stdout w @
           [''Error occured: '' @ m,
            ''WARNING: Cannot find if review '' @ str_int (id' r) @ '' needs verification''],
        tracker := tracker w @
           (case needs_verification h r of
              Inl err \<Rightarrow> [NeedsVerification r]
            | Inr nv \<Rightarrow> [NeedsVerification r, GetReviewIds r])\<rparr>,
      FallThrough False)"
  using assms
  by (auto simp add: raised_def try_block_def except_clauses_def Let_def print_def call_def
      split: sum.splits if_splits)

lemma try_block_review_error:
  assumes "needs_verification h r = Inr True"
    and "get_review_ids h r = Some (ReviewError m)"
  shows "try_block h r w =
     (w\<lparr>tracker := tracker w @
           [NeedsVerification r, GetReviewIds r,
            PostReview r (''Bad review!'' @ [CHR 0x0A, CHR 0x0A] @ ''Error:'' @ [CHR 0x0A] @ m)]\<rparr>,
      case post_review h r (''Bad review!'' @ [CHR 0x0A, CHR 0x0A] @ ''Error:'' @ [CHR 0x0A] @ m) of
        None \<Rightarrow> Continue
      | Some err \<Rightarrow> Propagate err)"
  using assms
  by (simp add: try_block_def except_clauses_def bad_review_message_def Let_def call_def
      split: option.splits)

lemma loop_single_qualifying:
  assumes "cap = - 1 \<or> num < cap" and "qualifies h r2"
  shows "for_review_requests h cap [r2] num ids w =
     (w\<lparr>tracker := tracker w @ [NeedsVerification r2, GetReviewIds r2]\<rparr>,
      Inr (num + 1, ids @ [str_int (id' r2)]))"
  using assms by (auto simp add: try_block_qualifies call_def)

text \<open>
  Claim C5. When the status or the dependency chain of an examined review request raises
  an exception other than \<open>ReviewError\<close>, the \<^verbatim>\<open>try\<close> statement prints the two warning
  lines, posts no comment and falls through with \<^verbatim>\<open>needs_verification\<close> false; the
  request is not selected and does not count; the loop goes on with the remaining
  requests (a qualifying request that follows is examined and selected), and the warning
  lines are in the output of the whole loop.
\<close>

theorem other_exception_skips_review:
  assumes "cap = - 1 \<or> num < cap"
    and "raised h r = Some (OtherException m)"
  shows "let calls = (case needs_verification h r of
                        Inl err \<Rightarrow> [NeedsVerification r]
                      | Inr nv \<Rightarrow> [NeedsVerification r, GetReviewIds r]);
             warning = [''Error occured: '' @ m,
                        ''WARNING: Cannot find if review '' @ str_int (id' r)
                          @ '' needs verification''];
             w1 = w\<lparr>stdout := stdout w @ warning, tracker := tracker w @ calls\<rparr>
         in try_block h r w = (w1, FallThrough False)
          \<and> for_review_requests h cap (r # rest) num ids w
              = for_review_requests h cap rest num ids w1
          \<and> for_review_requests h cap [r] num ids w = (w1, Inr (num, ids))
          \<and> (\<forall>r2. qualifies h r2 \<longrightarrow>
                for_review_requests h cap [r, r2] num ids w
                  = (w1\<lparr>tracker := tracker w1 @ [NeedsVerification r2, GetReviewIds r2]\<rparr>,
                     Inr (num + 1, ids @ [str_int (id' r2)])))
          \<and> (\<exists>out. stdout (fst (for_review_requests h cap (r # rest) num ids w))
                = stdout w @ warning @ out)
          \<and> \<not> qualifies h r"
proof -
  let ?calls = "case needs_verification h r of
                        Inl err \<Rightarrow> [NeedsVerification r]
                      | Inr nv \<Rightarrow> [NeedsVerification r, GetReviewIds r]"
  let ?warning = "[''Error occured: '' @ m,
                        ''WARNING: Cannot find if review '' @ str_int (id' r)
                          @ '' needs verification'']"
  let ?w1 = "w\<lparr>stdout := stdout w @ ?warning, tracker := tracker w @ ?calls\<rparr>"
  have tb: "try_block h r w = (?w1, FallThrough False)"
    using try_block_other_exception[OF assms(2), of w] by simp
  have step: "for_review_requests h cap (r # rs) num ids w
              = for_review_requests h cap rs num ids ?w1" for rs
    using assms(1) tb by auto
  have single: "for_review_requests h cap [r] num ids w = (?w1, Inr (num, ids))"
    using step[of "[]"] by simp
  have pair: "for_review_requests h cap [r, r2] num ids w
                  = (?w1\<lparr>tracker := tracker ?w1 @ [NeedsVerification r2, GetReviewIds r2]\<rparr>,
                     Inr (num + 1, ids @ [str_int (id' r2)]))" if "qualifies h r2" for r2
    using step[of "[r2]"] loop_single_qualifying[OF assms(1) that, of ids ?w1] by simp
  have out: "\<exists>out. stdout (fst (for_review_requests h cap (r # rest) num ids w))
                = stdout w @ ?warning @ out"
  proof -
    from loop_stdout[of h cap rest num ids ?w1] obtain out
      where "stdout (fst (for_review_requests h cap rest num ids ?w1)) = stdout ?w1 @ out"
      by blast
    then show ?thesis using step[of rest] by simp
  qed
  have nq: "\<not> qualifies h r"
    using assms(2) by (auto simp add: qualifies_def raised_def)
  from tb step[of rest] single pair out nq show ?thesis
    unfolding Let_def by blast
qed

lemma demo_qualifies_5: "qualifies demo_handler (rq 5)"
  by (simp add: qualifies_def demo_handler_def rq_def)

theorem other_exception_skips_review_witness:
  "for_review_requests demo_handler (- 1) [rq 3, rq 5] 0 [] world0
     = (world0\<lparr>stdout := [''Error occured: HTTP Error 500'',
                             ''WARNING: Cannot find if review 3 needs verification''],
                 tracker := [NeedsVerification (rq 3),
                             NeedsVerification (rq 5), GetReviewIds (rq 5)]\<rparr>,
        Inr (1, [''5'']))"
proof -
  have 1: "- 1 = (- 1 :: int) \<or> (0::int) < - 1" by simp
  have 2: "raised demo_handler (rq 3) = Some (OtherException ''HTTP Error 500'')"
    by (simp add: raised_def demo_handler_def rq_def)
  have 3: "needs_verification demo_handler (rq 3) = Inl (OtherException ''HTTP Error 500'')"
    by (simp add: demo_handler_def rq_def)
  have 4: "id' (rq 3) = 3" "id' (rq 5) = 5" by (simp_all add: rq_def)
  let ?w1 = "world0\<lparr>stdout := stdout world0 @
                        [''Error occured: '' @ ''HTTP Error 500'',
                         ''WARNING: Cannot find if review '' @ str_int (id' (rq 3))
                           @ '' needs verification''],
                      tracker := tracker world0 @ [NeedsVerification (rq 3)]\<rparr>"
  from other_exception_skips_review[OF 1 2, where rest = "[]" and ids = "[]" and w = world0]
  have "\<forall>r2. qualifies demo_handler r2 \<longrightarrow>
          for_review_requests demo_handler (- 1) [rq 3, r2] 0 [] world0
            = (?w1\<lparr>tracker := tracker ?w1 @ [NeedsVerification r2, GetReviewIds r2]\<rparr>,
               Inr (0 + 1, [] @ [str_int (id' r2)]))"
    unfolding Let_def 3 sum.case by blast
  with demo_qualifies_5
  have "for_review_requests demo_handler (- 1) [rq 3, rq 5] 0 [] world0
            = (?w1\<lparr>tracker := tracker ?w1 @ [NeedsVerification (rq 5), GetReviewIds (rq 5)]\<rparr>,
               Inr (0 + 1, [] @ [str_int (id' (rq 5))]))"
    by blast
  then show ?thesis
    by (simp add: world0_def 4 str_int_digit)
qed

lemma set_truncate_at_cap: "set (truncate_at_cap c xs) \<subseteq> set xs"
  by (auto simp add: truncate_at_cap_def dest: in_set_takeD)

lemma loop_selected:
  "for_review_requests h c (rev fetched) 0 [] v = (v', Inr (n, ids')) \<Longrightarrow>
   ids' = map (\<lambda>x. str_int (id' x)) (truncate_at_cap c (filter (qualifies h) (rev fetched)))"
  using loop_from_start[of h c fetched v v' n ids']
  by (simp add: spec_dispatched_def truncate_at_cap_def take_map)

text \<open>
  Claim C4. When resolving the dependency chain of an examined review request raises
  \<open>ReviewError\<close> with message \<open>m\<close>, the \<^verbatim>\<open>try\<close> statement makes exactly one
  \<^verbatim>\<open>post_review\<close> call on that request, with the text
  \<^verbatim>\<open>"Bad review!\n\nError:\n"\<close> followed by \<open>m\<close>; the identifiers and the count are
  unchanged, so a qualifying request that follows is still selected under the same cap;
  the loop goes on (or the failure to post escapes). Such a request does not qualify:
  the identifiers that a completed loop returns are those of the qualifying requests up
  to the cap, the request is not among them, and when the fetched identifiers are
  distinct its identifier is not among the returned ones.
\<close>

theorem cyclic_review_commented_and_skipped:
  assumes "cap = - 1 \<or> num < cap"
    and "needs_verification h r = Inr True"
    and "get_review_ids h r = Some (ReviewError m)"
  shows "let message = ''Bad review!'' @ [CHR 0x0A, CHR 0x0A] @ ''Error:'' @ [CHR 0x0A] @ m;
             calls = [NeedsVerification r, GetReviewIds r, PostReview r message];
             w1 = w\<lparr>tracker := tracker w @ calls\<rparr>
         in try_block h r w =
              (w1, case post_review h r message of
                     None \<Rightarrow> Continue
                   | Some err \<Rightarrow> Propagate err)
          \<and> for_review_requests h cap (r # rest) num ids w =
              (case post_review h r message of
                 None \<Rightarrow> for_review_requests h cap rest num ids w1
               | Some err \<Rightarrow> (w1, Inl err))
          \<and> (post_review h r message = None \<longrightarrow>
                for_review_requests h cap [r] num ids w = (w1, Inr (num, ids))
                \<and> (\<forall>r2. qualifies h r2 \<longrightarrow>
                      for_review_requests h cap [r, r2] num ids w
                        = (w1\<lparr>tracker := tracker w1 @ [NeedsVerification r2, GetReviewIds r2]\<rparr>,
                           Inr (num + 1, ids @ [str_int (id' r2)]))))
          \<and> (\<exists>later. tracker (fst (for_review_requests h cap (r # rest) num ids w))
                = tracker w @ calls @ later)
          \<and> \<not> qualifies h r
          \<and> (\<forall>c fetched v v' n ids'.
                for_review_requests h c (rev fetched) 0 [] v = (v', Inr (n, ids')) \<longrightarrow>
                ids' = map (\<lambda>x. str_int (id' x))
                         (truncate_at_cap c (filter (qualifies h) (rev fetched)))
                \<and> r \<notin> set (truncate_at_cap c (filter (qualifies h) (rev fetched)))
                \<and> (r \<in> set fetched \<and> distinct (map id' fetched) \<longrightarrow>
                     str_int (id' r) \<notin> set ids'))"
proof -
  let ?message = "''Bad review!'' @ [CHR 0x0A, CHR 0x0A] @ ''Error:'' @ [CHR 0x0A] @ m"
  let ?calls = "[NeedsVerification r, GetReviewIds r, PostReview r ?message]"
  let ?w1 = "w\<lparr>tracker := tracker w @ ?calls\<rparr>"
  have tb: "try_block h r w =
              (?w1, case post_review h r ?message of
                     None \<Rightarrow> Continue
                   | Some err \<Rightarrow> Propagate err)"
    using try_block_review_error[OF assms(2,3), of w] by simp
  have step: "for_review_requests h cap (r # rs) num ids w =
              (case post_review h r ?message of
                 None \<Rightarrow> for_review_requests h cap rs num ids ?w1
               | Some err \<Rightarrow> (?w1, Inl err))" for rs
    using assms(1) tb by (auto split: option.splits)
  have single: "for_review_requests h cap [r] num ids w = (?w1, Inr (num, ids))"
    if "post_review h r ?message = None"
    using step[of "[]"] that by simp
  have pair: "for_review_requests h cap [r, r2] num ids w
                = (?w1\<lparr>tracker := tracker ?w1 @ [NeedsVerification r2, GetReviewIds r2]\<rparr>,
                   Inr (num + 1, ids @ [str_int (id' r2)]))"
    if "post_review h r ?message = None" and "qualifies h r2" for r2
    using step[of "[r2]"] that(1) loop_single_qualifying[OF assms(1) that(2), of ids ?w1]
    by simp
  have later: "\<exists>later. tracker (fst (for_review_requests h cap (r # rest) num ids w))
                = tracker w @ ?calls @ later"
  proof (cases "post_review h r ?message")
    case None
    from loop_tracker[of h cap rest num ids ?w1] obtain later
      where "tracker (fst (for_review_requests h cap rest num ids ?w1)) = tracker ?w1 @ later"
      by blast
    then show ?thesis using step[of rest] None by simp
  next
    case (Some err)
    then show ?thesis using step[of rest] by simp
  qed
  have nq: "\<not> qualifies h r"
    using assms(3) by (simp add: qualifies_def)
  have final: "ids' = map (\<lambda>x. str_int (id' x))
                         (truncate_at_cap c (filter (qualifies h) (rev fetched)))
                \<and> r \<notin> set (truncate_at_cap c (filter (qualifies h) (rev fetched)))
                \<and> (r \<in> set fetched \<and> distinct (map id' fetched) \<longrightarrow>
                     str_int (id' r) \<notin> set ids')"
    if run: "for_review_requests h c (rev fetched) 0 [] v = (v', Inr (n, ids'))"
    for c fetched v v' n ids'
  proof -
    let ?chosen = "truncate_at_cap c (filter (qualifies h) (rev fetched))"
    have eq: "ids' = map (\<lambda>x. str_int (id' x)) ?chosen"
      using run by (rule loop_selected)
    have sub: "set ?chosen \<subseteq> set (filter (qualifies h) (rev fetched))"
      by (rule set_truncate_at_cap)
    then have out: "r \<notin> set ?chosen"
      using nq by auto
    have "str_int (id' r) \<notin> set ids'"
      if "r \<in> set fetched" and "distinct (map id' fetched)"
    proof
      assume "str_int (id' r) \<in> set ids'"
      with eq obtain x where x: "x \<in> set ?chosen" and "str_int (id' x) = str_int (id' r)"
        by auto
      then have same: "id' x = id' r" by (simp add: str_int_inj)
      from x sub have "x \<in> set fetched" by auto
      moreover from that(2) have "inj_on id' (set fetched)" by (simp add: distinct_map)
      ultimately have "x = r" using same that(1) by (auto dest: inj_onD)
      with x out show False by simp
    qed
    with eq out show ?thesis by blast
  qed
  from tb step[of rest] single pair later nq final show ?thesis
    unfolding Let_def by blast
qed

theorem cyclic_review_commented_and_skipped_witness:
  "for_review_requests demo_handler 1 [rq 4, rq 5] 0 [] world0
     = (world0\<lparr>tracker :=
                  [NeedsVerification (rq 4), GetReviewIds (rq 4),
                   PostReview (rq 4)
                     (''Bad review!'' @ [CHR 0x0A, CHR 0x0A] @ ''Error:'' @ [CHR 0x0A]
                        @ ''Circular dependency detected''),
                   NeedsVerification (rq 5), GetReviewIds (rq 5)]\<rparr>,
        Inr (1, [''5'']))"
proof -
  have 1: "1 = (- 1 :: int) \<or> (0::int) < 1" by simp
  have 2: "needs_verification demo_handler (rq 4) = Inr True"
    by (simp add: demo_handler_def rq_def)
  have 3: "get_review_ids demo_handler (rq 4) = Some (ReviewError ''Circular dependency detected'')"
    by (simp add: demo_handler_def rq_def)
  have 4: "post_review demo_handler (rq 4)
             (''Bad review!'' @ [CHR 0x0A, CHR 0x0A] @ ''Error:'' @ [CHR 0x0A]
                @ ''Circular dependency detected'') = None"
    by (simp add: demo_handler_def)
  have 5: "id' (rq 5) = 5" by (simp add: rq_def)
  let ?w1 = "world0\<lparr>tracker := tracker world0 @
                [NeedsVerification (rq 4), GetReviewIds (rq 4),
                 PostReview (rq 4)
                   (''Bad review!'' @ [CHR 0x0A, CHR 0x0A] @ ''Error:'' @ [CHR 0x0A]
                      @ ''Circular dependency detected'')]\<rparr>"
  from cyclic_review_commented_and_skipped[OF 1 2 3,
      where rest = "[]" and ids = "[]" and w = world0] 4
  have "\<forall>r2. qualifies demo_handler r2 \<longrightarrow>
          for_review_requests demo_handler 1 [rq 4, r2] 0 [] world0
            = (?w1\<lparr>tracker := tracker ?w1 @ [NeedsVerification r2, GetReviewIds r2]\<rparr>,
               Inr (0 + 1, [] @ [str_int (id' r2)]))"
    unfolding Let_def by blast
  with demo_qualifies_5
  have "for_review_requests demo_handler 1 [rq 4, rq 5] 0 [] world0
            = (?w1\<lparr>tracker := tracker ?w1 @ [NeedsVerification (rq 5), GetReviewIds (rq 5)]\<rparr>,
               Inr (0 + 1, [] @ [str_int (id' (rq 5))]))"
    by blast
  then show ?thesis
    by (simp add: world0_def 5 str_int_digit)
qed

section \<open>The two output strategies\<close>

lemma str_split_not_Nil: "str_split c s \<noteq> []"
  by (induction s) (auto split: list.splits)

lemma str_split_no_sep: "c \<notin> set s \<Longrightarrow> str_split c s = [s]"
  by (induction s) auto

lemma str_split_append: "c \<notin> set a \<Longrightarrow> str_split c (a @ c # b) = a # str_split c b"
  by (induction a) (auto split: list.splits simp add: str_split_not_Nil)

lemma str_split_parts: "x \<in> set (str_split c s) \<Longrightarrow> c \<notin> set x"
proof (induction s arbitrary: x)
  case Nil
  then show ?case by simp
next
  case (Cons a s)
  show ?case
  proof (cases "a = c")
    case True
    with Cons show ?thesis by auto
  next
    case False
    obtain y ys where s: "str_split c s = y # ys"
      using str_split_not_Nil[of c s] by (cases "str_split c s") auto
    with Cons.prems False have "x = a # y \<or> x \<in> set ys" by simp
    then show ?thesis
    proof
      assume "x = a # y"
      moreover have "c \<notin> set y" using Cons.IH[of y] s by simp
      ultimately show ?thesis using False by auto
    next
      assume "x \<in> set ys"
      then show ?thesis using Cons.IH[of x] s by simp
    qed
  qed
qed

lemma default_port_text: "str_int DEFAULT_GEARMAN_PORT = ''4730''"
  by (simp add: DEFAULT_GEARMAN_PORT_def str_int_def str_nat.simps)

lemma normalize_server_form:
  "\<exists>host port. normalize_server server = host @ '':'' @ port
      \<and> CHR '':'' \<notin> set host \<and> CHR '':'' \<notin> set port"
proof -
  let ?parts = "str_split CHR '':'' (strip server)"
  let ?port = "if length ?parts = 2 then ?parts ! 1 else str_int DEFAULT_GEARMAN_PORT"
  have ne: "?parts \<noteq> []" by (rule str_split_not_Nil)
  then have "hd ?parts \<in> set ?parts" by simp
  then have host: "CHR '':'' \<notin> set (hd ?parts)" by (rule str_split_parts)
  have port: "CHR '':'' \<notin> set ?port"
  proof (cases "length ?parts = 2")
    case True
    then have "?parts ! 1 \<in> set ?parts" by simp
    then have "CHR '':'' \<notin> set (?parts ! 1)" by (rule str_split_parts)
    with True show ?thesis by simp
  next
    case False
    then show ?thesis by (simp add: default_port_text)
  qed
  have "normalize_server server = hd ?parts @ '':'' @ ?port"
    by (simp add: normalize_server_def Let_def)
  with host port show ?thesis by blast
qed

text \<open>
  Claim C7. Every entry of the comma-separated servers string becomes one address of the
  form host:port, where neither part contains a colon; an entry without a colon gets the
  default port 4730, an entry host:port is kept; and \<^verbatim>\<open>"a.com,b.com:9999"\<close> becomes
  \<^verbatim>\<open>["a.com:4730", "b.com:9999"]\<close>.
\<close>

theorem servers_normalized:
  "normalize_servers ''a.com,b.com:9999'' = [''a.com:4730'', ''b.com:9999'']
   \<and> length (normalize_servers servers) = length (str_split CHR '','' servers)
   \<and> (\<forall>s\<in>set (normalize_servers servers).
         \<exists>host port. s = host @ '':'' @ port \<and> CHR '':'' \<notin> set host \<and> CHR '':'' \<notin> set port)
   \<and> (CHR '':'' \<notin> set (strip server) \<longrightarrow> normalize_server server = strip server @ '':4730'')
   \<and> (CHR '':'' \<notin> set host \<and> CHR '':'' \<notin> set port \<and> strip server = host @ '':'' @ port \<longrightarrow>
         normalize_server server = host @ '':'' @ port)"
proof (intro conjI ballI impI)
  show "normalize_servers ''a.com,b.com:9999'' = [''a.com:4730'', ''b.com:9999'']"
    by (simp add: normalize_servers_def normalize_server_def strip_def isspace_def
        default_port_text Let_def)
next
  show "length (normalize_servers servers) = length (str_split CHR '','' servers)"
    by (simp add: normalize_servers_def)
next
  fix s
  assume "s \<in> set (normalize_servers servers)"
  then obtain e where "s = normalize_server e"
    by (auto simp add: normalize_servers_def)
  with normalize_server_form[of e]
  show "\<exists>host port. s = host @ '':'' @ port \<and> CHR '':'' \<notin> set host \<and> CHR '':'' \<notin> set port"
    by simp
next
  assume "CHR '':'' \<notin> set (strip server)"
  then show "normalize_server server = strip server @ '':4730''"
    by (simp add: normalize_server_def Let_def str_split_no_sep default_port_text)
next
  assume a: "CHR '':'' \<notin> set host \<and> CHR '':'' \<notin> set port \<and> strip server = host @ '':'' @ port"
  then have "str_split CHR '':'' (strip server) = [host, port]"
    using str_split_append[of "CHR '':''" host port] by (simp add: str_split_no_sep)
  then show "normalize_server server = host @ '':'' @ port"
    by (simp add: normalize_server_def Let_def)
qed

theorem servers_normalized_witness:
  "normalize_server '' build.example.org '' = ''build.example.org:4730''
   \<and> normalize_server ''10.0.0.7:4731'' = ''10.0.0.7:4731''"
proof -
  have 1: "strip '' build.example.org '' = ''build.example.org''"
    by (simp add: strip_def isspace_def)
  have 2: "strip ''10.0.0.7:4731'' = ''10.0.0.7'' @ '':'' @ ''4731''"
    by (simp add: strip_def isspace_def)
  have 3: "CHR '':'' \<notin> set ''build.example.org''" by simp
  have 4: "CHR '':'' \<notin> set ''10.0.0.7'' \<and> CHR '':'' \<notin> set ''4731''" by simp
  from servers_normalized[of "''x''" "'' build.example.org ''" "''y''" "''z''"] 1 3
  have a: "normalize_server '' build.example.org '' = ''build.example.org:4730''"
    by simp
  from servers_normalized[of "''x''" "''10.0.0.7:4731''" "''10.0.0.7''" "''4731''"] 2 4
  have b: "normalize_server ''10.0.0.7:4731'' = ''10.0.0.7:4731''"
    by simp
  from a b show ?thesis by simp
qed

text \<open>
  Claim C8. Under the file strategy, when the output file can be opened, it holds
  afterwards exactly the identifiers joined by newlines, whatever it held before, and
  nothing is given to the queue client; \<^verbatim>\<open>["5", "9"]\<close> gives the three characters
  \<^verbatim>\<open>5\<close>, newline, \<^verbatim>\<open>9\<close>, and the empty list gives the empty text.
\<close>

theorem file_strategy_output:
  assumes "plugin p = FilePlugin out_file"
    and "open_w env out_file = None"
  shows "(\<exists>w'. verify_reviews env review_ids p w = (w', Inr ())
            \<and> files w' = (files w)(out_file \<mapsto> join [CHR 0x0A] review_ids)
            \<and> gearman w' = gearman w \<and> tracker w' = tracker w)
         \<and> join [CHR 0x0A] [''5'', ''9''] = [CHR ''5'', CHR 0x0A, CHR ''9'']
         \<and> join [CHR 0x0A] [] = ''''"
  using assms by (simp add: verify_reviews_def Let_def print_def)

theorem file_strategy_output_witness:
  "files (fst (verify_reviews demo_env [''5'', ''9'']
                 (demo_parameters (- 1) (FilePlugin ''out.txt'')) world0)) ''out.txt''
     = Some [CHR ''5'', CHR 0x0A, CHR ''9'']
   \<and> files (fst (verify_reviews demo_env []
                 (demo_parameters (- 1) (FilePlugin ''out.txt''))
                 (world0\<lparr>files := [''out.txt'' \<mapsto> ''7'']\<rparr>))) ''out.txt''
     = Some ''''"
proof -
  let ?p = "demo_parameters (- 1) (FilePlugin ''out.txt'')"
  have 1: "plugin ?p = FilePlugin ''out.txt''" by (simp add: demo_parameters_def)
  have 2: "open_w demo_env ''out.txt'' = None" by (simp add: demo_env_def)
  from file_strategy_output[OF 1 2, of "[''5'', ''9'']" world0]
  have a: "files (fst (verify_reviews demo_env [''5'', ''9''] ?p world0)) ''out.txt''
             = Some [CHR ''5'', CHR 0x0A, CHR ''9'']"
    by auto
  from file_strategy_output[OF 1 2, of "[]" "world0\<lparr>files := [''out.txt'' \<mapsto> ''7'']\<rparr>"]
  have b: "files (fst (verify_reviews demo_env [] ?p
                 (world0\<lparr>files := [''out.txt'' \<mapsto> ''7'']\<rparr>))) ''out.txt'' = Some ''''"
    by auto
  from a b show ?thesis by simp
qed

text \<open>
  Claim C9. Under the queue strategy with an empty list of identifiers,
  \<open>verify_reviews\<close> returns after printing the count: no token is drawn for a job, no
  batch reaches the queue client, whatever the extra parameters are.
\<close>

theorem empty_list_submits_nothing:
  assumes "plugin p = GearmanPlugin servers_arg job_arg params"
  shows "\<exists>w'. verify_reviews env [] p w = (w', Inr ())
           \<and> gearman w' = gearman w \<and> uuids w' = uuids w
           \<and> stdout w' = stdout w @ [''There are 0 review requests that need verification'']
           \<and> tracker w' = tracker w \<and> files w' = files w"
  using assms by (simp add: verify_reviews_def Let_def print_def str_int_digit)

theorem empty_list_submits_nothing_witness:
  "verify_reviews demo_env []
     (demo_parameters (- 1) (GearmanPlugin ''a.com,b.com:9999'' ''mesos'' (Some not_json))) world0
   = (world0\<lparr>stdout := [''There are 0 review requests that need verification'']\<rparr>, Inr ())"
proof -
  let ?p = "demo_parameters (- 1) (GearmanPlugin ''a.com,b.com:9999'' ''mesos'' (Some not_json))"
  have 1: "plugin ?p = GearmanPlugin ''a.com,b.com:9999'' ''mesos'' (Some not_json)"
    by (simp add: demo_parameters_def)
  from empty_list_submits_nothing[OF 1, of demo_env world0]
  show ?thesis by (auto simp add: world0_def)
qed

section \<open>Facts about the job parameters\<close>

lemma map_of_dict_setitem: "map_of (dict_setitem k v d) = (map_of d)(k \<mapsto> v)"
  by (induction d) (auto simp add: fun_eq_iff)

lemma map_of_fold_setitem:
  "map_of (fold (\<lambda>(k, v). dict_setitem k v) kvs d) = map_of d ++ map_of (rev kvs)"
proof (induction kvs arbitrary: d)
  case Nil
  then show ?case by simp
next
  case (Cons kv kvs)
  obtain k v where kv: "kv = (k, v)" by (cases kv)
  have "map_of (fold (\<lambda>(k, v). dict_setitem k v) (kv # kvs) d)
          = map_of (dict_setitem k v d) ++ map_of (rev kvs)"
    using Cons.IH[of "dict_setitem k v d"] kv by simp
  also have "\<dots> = map_of d ++ map_of (rev (kv # kvs))"
    by (simp add: map_of_dict_setitem kv fun_eq_iff map_add_def split: option.splits)
  finally show ?case .
qed

lemma job_params_overlay:
  assumes "params = None \<and> kvs = [] \<or> (\<exists>x. params = Some x \<and> json_loads env x = Inr (JObject kvs))"
  shows "\<exists>d. job_params env params review_id = Inr d
           \<and> (\<forall>k. map_of d k =
                 (case mapping_of_object kvs k of
                    Some v \<Rightarrow> Some v
                  | None \<Rightarrow> map_of (base_params review_id) k))"
  using assms
  by (auto simp add: job_params_def dict_update_def base_params_def mapping_of_object_def
      map_of_fold_setitem map_add_def split: option.splits)

lemma build_jobs_result:
  assumes "\<And>review_id. \<exists>d. job_params env params review_id = Inr d \<and> P review_id d"
  shows "\<exists>w1 added. build_jobs env task_name params review_ids jobs w = (w1, Inr (jobs @ added))
           \<and> gearman w1 = gearman w \<and> tracker w1 = tracker w \<and> files w1 = files w
           \<and> length added = length review_ids
           \<and> (\<forall>i<length review_ids. \<exists>d. P (review_ids ! i) d
                 \<and> data (added ! i) = json_dumps env d \<and> task (added ! i) = task_name)"
proof (induction review_ids arbitrary: jobs w)
  case Nil
  then show ?case by simp
next
  case (Cons review_id rest)
  from assms[of review_id] obtain d where d: "job_params env params review_id = Inr d"
    and P: "P review_id d" by blast
  let ?w1 = "print (''Preparing build job with review id: '' @ review_id) w"
  let ?j = "\<lparr>unique = uuid4_hex env (uuids ?w1), task = task_name, data = json_dumps env d\<rparr>"
  from Cons.IH[of "jobs @ [?j]" "?w1\<lparr>uuids := Suc (uuids ?w1)\<rparr>"]
  obtain w1 added where
    run: "build_jobs env task_name params rest (jobs @ [?j]) (?w1\<lparr>uuids := Suc (uuids ?w1)\<rparr>)
            = (w1, Inr ((jobs @ [?j]) @ added))"
    and same: "gearman w1 = gearman w" "tracker w1 = tracker w" "files w1 = files w"
    and len: "length added = length rest"
    and each: "\<forall>i<length rest. \<exists>d. P (rest ! i) d
                 \<and> data (added ! i) = json_dumps env d \<and> task (added ! i) = task_name"
    by (auto simp add: print_def)
  have "build_jobs env task_name params (review_id # rest) jobs w = (w1, Inr (jobs @ ?j # added))"
    using d run by (simp add: Let_def)
  moreover have "\<forall>i<length (review_id # rest). \<exists>d. P ((review_id # rest) ! i) d
                 \<and> data ((?j # added) ! i) = json_dumps env d \<and> task ((?j # added) ! i) = task_name"
  proof (intro allI impI)
    fix i
    assume "i < length (review_id # rest)"
    then show "\<exists>d. P ((review_id # rest) ! i) d
                 \<and> data ((?j # added) ! i) = json_dumps env d \<and> task ((?j # added) ! i) = task_name"
      using P each by (cases i) auto
  qed
  ultimately show ?case
    using same len by (intro exI[of _ w1] exI[of _ "?j # added"]) simp
qed

text \<open>
  Claim C6. Under the queue strategy with a non-empty list of identifiers, where the
  extra parameters are absent or parse to a JSON object, one batch is handed to the
  queue client with one job per identifier; the data of each job is the serialisation of
  a dictionary in which every key of the caller's object has the caller's value, and
  every other key has the value of the base parameters (the review identifier and the
  flag \<^verbatim>\<open>OFFLINE_NODE_WHEN_COMPLETE\<close> set to \<^verbatim>\<open>"false"\<close>).
\<close>

theorem job_parameters_overlay:
  assumes "plugin p = GearmanPlugin servers_arg job_arg params"
    and "review_ids \<noteq> []"
    and "params = None \<and> kvs = [] \<or> (\<exists>x. params = Some x \<and> json_loads env x = Inr (JObject kvs))"
  shows "\<exists>w1 jobs.
           verify_reviews env review_ids p w =
             (w1, case trigger_gearman_jobs env (normalize_servers servers_arg) jobs of
                    None \<Rightarrow> Inr ()
                  | Some err \<Rightarrow> Inl err)
           \<and> gearman w1 = gearman w @ [(normalize_servers servers_arg, jobs)]
           \<and> length jobs = length review_ids
           \<and> (\<forall>i<length review_ids. \<exists>d.
                 data (jobs ! i) = json_dumps env d
                 \<and> task (jobs ! i) = ''build:'' @ job_arg
                 \<and> (\<forall>k. map_of d k =
                       (case mapping_of_object kvs k of
                          Some v \<Rightarrow> Some v
                        | None \<Rightarrow> map_of (base_params (review_ids ! i)) k)))"
proof -
  let ?w0 = "print (''There are '' @ str_int (int (length review_ids))
                      @ '' review requests that need verification'') w"
  let ?P = "\<lambda>review_id d. \<forall>k. map_of d k =
                       (case mapping_of_object kvs k of
                          Some v \<Rightarrow> Some v
                        | None \<Rightarrow> map_of (base_params review_id) k)"
  have "\<And>review_id. \<exists>d. job_params env params review_id = Inr d \<and> ?P review_id d"
    using job_params_overlay[OF assms(3)] by blast
  from build_jobs_result[of env params ?P "''build:'' @ job_arg" review_ids "[]" ?w0, OF this]
  obtain w1 jobs where
    run: "build_jobs env (''build:'' @ job_arg) params review_ids [] ?w0 = (w1, Inr jobs)"
    and same: "gearman w1 = gearman w"
    and len: "length jobs = length review_ids"
    and each: "\<forall>i<length review_ids. \<exists>d. ?P (review_ids ! i) d
                 \<and> data (jobs ! i) = json_dumps env d \<and> task (jobs ! i) = ''build:'' @ job_arg"
    by (auto simp add: print_def)
  let ?w2 = "w1\<lparr>gearman := gearman w1 @ [(normalize_servers servers_arg, jobs)]\<rparr>"
  have "verify_reviews env review_ids p w =
             (?w2, case trigger_gearman_jobs env (normalize_servers servers_arg) jobs of
                    None \<Rightarrow> Inr ()
                  | Some err \<Rightarrow> Inl err)"
    using assms(1,2) run by (simp add: verify_reviews_def Let_def split: option.splits)
  moreover have "gearman ?w2 = gearman w @ [(normalize_servers servers_arg, jobs)]"
    using same by simp
  ultimately show ?thesis
    using len each by (intro exI[of _ ?w2] exI[of _ jobs]) blast
qed

theorem job_parameters_overlay_witness:
  "\<exists>w1 jobs d.
     fst (verify_reviews demo_env [''1'']
            (demo_parameters (- 1) (GearmanPlugin ''a.com'' ''mesos'' (Some demo_extra))) world0) = w1
     \<and> gearman w1 = [([''a.com:4730''], jobs)]
     \<and> data (jobs ! 0) = json_dumps demo_env d
     \<and> map_of d ''REVIEW_ID'' = Some (JString ''1'')
     \<and> map_of d ''OFFLINE_NODE_WHEN_COMPLETE'' = Some (JString ''true'')
     \<and> map_of d ''NODE'' = Some (JString ''n1'')"
proof -
  let ?p = "demo_parameters (- 1) (GearmanPlugin ''a.com'' ''mesos'' (Some demo_extra))"
  let ?kvs = "[(''OFFLINE_NODE_WHEN_COMPLETE'', JString ''true''), (''NODE'', JString ''n1'')]"
  have 1: "plugin ?p = GearmanPlugin ''a.com'' ''mesos'' (Some demo_extra)"
    by (simp add: demo_parameters_def)
  have 2: "[''1''] \<noteq> []" by simp
  have 3: "Some demo_extra = None \<and> ?kvs = [] \<or>
           (\<exists>x. Some demo_extra = Some x \<and> json_loads demo_env x = Inr (JObject ?kvs))"
    by (simp add: demo_env_def demo_loads_def demo_extra_def demo_query_def)
  have 4: "normalize_servers ''a.com'' = [''a.com:4730'']"
    by (simp add: normalize_servers_def normalize_server_def strip_def isspace_def
        default_port_text Let_def)
  from job_parameters_overlay[OF 1 2 3, of world0]
  obtain w1 jobs where
    run: "verify_reviews demo_env [''1''] ?p world0 =
             (w1, case trigger_gearman_jobs demo_env (normalize_servers ''a.com'') jobs of
                    None \<Rightarrow> Inr ()
                  | Some err \<Rightarrow> Inl err)"
    and g: "gearman w1 = gearman world0 @ [(normalize_servers ''a.com'', jobs)]"
    and each: "\<forall>i<length [''1'']. \<exists>d.
                 data (jobs ! i) = json_dumps demo_env d
                 \<and> task (jobs ! i) = ''build:'' @ ''mesos''
                 \<and> (\<forall>k. map_of d k =
                       (case mapping_of_object ?kvs k of
                          Some v \<Rightarrow> Some v
                        | None \<Rightarrow> map_of (base_params ([''1''] ! i)) k))"
    by blast
  from each have "\<exists>d.
                 data (jobs ! 0) = json_dumps demo_env d
                 \<and> task (jobs ! 0) = ''build:'' @ ''mesos''
                 \<and> (\<forall>k. map_of d k =
                       (case mapping_of_object ?kvs k of
                          Some v \<Rightarrow> Some v
                        | None \<Rightarrow> map_of (base_params ([''1''] ! 0)) k))"
    by simp
  then obtain d where
    d: "data (jobs ! 0) = json_dumps demo_env d"
    and m: "\<forall>k. map_of d k =
                       (case mapping_of_object ?kvs k of
                          Some v \<Rightarrow> Some v
                        | None \<Rightarrow> map_of (base_params ([''1''] ! 0)) k)"
    by blast
  have "map_of d ''REVIEW_ID'' = Some (JString ''1'')"
    and "map_of d ''OFFLINE_NODE_WHEN_COMPLETE'' = Some (JString ''true'')"
    and "map_of d ''NODE'' = Some (JString ''n1'')"
    by (simp_all add: m mapping_of_object_def base_params_def)
  moreover have "fst (verify_reviews demo_env [''1''] ?p world0) = w1"
    using run by simp
  moreover have "gearman w1 = [([''a.com:4730''], jobs)]"
    using g 4 by (simp add: world0_def)
  ultimately show ?thesis
    using d by (intro exI[of _ w1] exI[of _ jobs] exI[of _ d]) simp
qed

section \<open>Malformed JSON on the command line\<close>

text \<open>
  Claim C2 does not hold for \<^verbatim>\<open>--params\<close>. With the example tracker and extra
  parameters that are not JSON, the run fetches the review requests, examines all five
  and posts the comment on request 4 before it fails; and with the cap \<open>0\<close>, where no
  request is selected, the same extra parameters are never parsed and the run ends
  normally.
\<close>

theorem malformed_params_counterexample:
  "json_loads demo_env not_json = Inl (OtherException ''No JSON object could be decoded'')
   \<and> snd (main demo_env
        (demo_parameters (- 1) (GearmanPlugin ''127.0.0.1'' ''mesos'' (Some not_json))) world0)
       = Inl (OtherException ''No JSON object could be decoded'')
   \<and> tracker (fst (main demo_env
        (demo_parameters (- 1) (GearmanPlugin ''127.0.0.1'' ''mesos'' (Some not_json))) world0))
       = [Api ''https://reviews.apache.org/api/review-requests/?status=pending'',
          NeedsVerification (rq 1), GetReviewIds (rq 1),
          NeedsVerification (rq 2),
          NeedsVerification (rq 3),
          NeedsVerification (rq 4), GetReviewIds (rq 4),
          PostReview (rq 4) (bad_review_message ''Circular dependency detected''),
          NeedsVerification (rq 5), GetReviewIds (rq 5)]
   \<and> snd (main demo_env
        (demo_parameters 0 (GearmanPlugin ''127.0.0.1'' ''mesos'' (Some not_json))) world0)
       = Inr ()"
  by (simp add: main_def verify_reviews_def job_params_def demo_env_def demo_loads_def
      demo_parameters_def demo_query_def demo_extra_def not_json_def demo_text_def
      demo_handler_def demo_fetched_def rq_def try_block_def except_clauses_def
      world0_def call_def print_def Let_def str_int_digit)

text \<open>
  Claim C2 as amended. A query that is not JSON makes the run fail at once: only the
  banner has been printed, nothing is fetched, posted or dispatched. Extra parameters
  that are not JSON are met only in \<open>verify_reviews\<close> under the queue strategy, after the
  selection loop: with no selected identifier the run ends normally, otherwise it fails
  while the first job is prepared, before anything is handed to the queue client.
\<close>

theorem malformed_json_failures:
  "(json_loads env (query p) = Inl err \<longrightarrow> main env p w = (print (banner env) w, Inl err))
   \<and> (plugin p = GearmanPlugin servers_arg job_arg (Some x) \<and> json_loads env x = Inl err \<longrightarrow>
        verify_reviews env [] p w
          = (print ''There are 0 review requests that need verification'' w, Inr ())
        \<and> verify_reviews env (review_id # rest) p w
          = (print (''Preparing build job with review id: '' @ review_id)
               (print (''There are '' @ str_int (int (length (review_id # rest)))
                         @ '' review requests that need verification'') w),
             Inl err))
   \<and> (plugin p = GearmanPlugin servers_arg job_arg (Some x) \<and> json_loads env x = Inl err
        \<and> json_loads env (query p) = Inr q \<and> urlencode env q = Inr encoded
        \<and> ReviewBoardHandler env (user p) (password p) = Inr h
        \<and> api h (REVIEWBOARD_URL env @ ''/api/review-requests/?'' @ replace_3A encoded)
            = Inr fetched
        \<and> for_review_requests h (reviews p) (rev fetched) 0 []
             (call (Api (REVIEWBOARD_URL env @ ''/api/review-requests/?'' @ replace_3A encoded))
                (print (banner env) w))
            = (w2, Inr (n, review_ids)) \<longrightarrow>
        main env p w =
          (case review_ids of
             [] \<Rightarrow> (print ''There are 0 review requests that need verification'' w2, Inr ())
           | first_id # others \<Rightarrow>
               (print (''Preparing build job with review id: '' @ first_id)
                  (print (''There are '' @ str_int (int (length review_ids))
                            @ '' review requests that need verification'') w2),
                Inl err)))"
proof (intro conjI impI)
  assume "json_loads env (query p) = Inl err"
  then show "main env p w = (print (banner env) w, Inl err)"
    by (simp add: main_def Let_def)
next
  assume a: "plugin p = GearmanPlugin servers_arg job_arg (Some x) \<and> json_loads env x = Inl err"
  then show "verify_reviews env [] p w
          = (print ''There are 0 review requests that need verification'' w, Inr ())"
    by (simp add: verify_reviews_def Let_def str_int_digit)
  from a show "verify_reviews env (review_id # rest) p w
          = (print (''Preparing build job with review id: '' @ review_id)
               (print (''There are '' @ str_int (int (length (review_id # rest)))
                         @ '' review requests that need verification'') w),
             Inl err)"
    by (simp add: verify_reviews_def job_params_def Let_def)
next
  assume a: "plugin p = GearmanPlugin servers_arg job_arg (Some x) \<and> json_loads env x = Inl err
        \<and> json_loads env (query p) = Inr q \<and> urlencode env q = Inr encoded
        \<and> ReviewBoardHandler env (user p) (password p) = Inr h
        \<and> api h (REVIEWBOARD_URL env @ ''/api/review-requests/?'' @ replace_3A encoded)
            = Inr fetched
        \<and> for_review_requests h (reviews p) (rev fetched) 0 []
             (call (Api (REVIEWBOARD_URL env @ ''/api/review-requests/?'' @ replace_3A encoded))
                (print (banner env) w))
            = (w2, Inr (n, review_ids))"
  then have "main env p w = verify_reviews env review_ids p w2"
    using main_after_fetch[of env p q encoded h fetched w] by simp
  with a show "main env p w =
          (case review_ids of
             [] \<Rightarrow> (print ''There are 0 review requests that need verification'' w2, Inr ())
           | first_id # others \<Rightarrow>
               (print (''Preparing build job with review id: '' @ first_id)
                  (print (''There are '' @ str_int (int (length review_ids))
                            @ '' review requests that need verification'') w2),
                Inl err))"
    by (cases review_ids) (simp_all add: verify_reviews_def job_params_def Let_def str_int_digit)
qed

theorem malformed_json_failures_witness:
  "main demo_env
     \<lparr>user = ''jenkins'', password = ''secret'', reviews = - 1, query = not_json,
        plugin = FilePlugin ''out.txt''\<rparr> world0
     = (world0\<lparr>stdout := [''Running verify-review-requests.py'']\<rparr>,
        Inl (OtherException ''No JSON object could be decoded''))
   \<and> verify_reviews demo_env [''1'', ''5'']
        (demo_parameters (- 1) (GearmanPlugin ''127.0.0.1'' ''mesos'' (Some not_json))) world0
     = (world0\<lparr>stdout := [''There are 2 review requests that need verification'',
                             ''Preparing build job with review id: 1'']\<rparr>,
        Inl (OtherException ''No JSON object could be decoded''))"
proof -
  let ?q = "\<lparr>user = ''jenkins'', password = ''secret'', reviews = - 1, query = not_json,
        plugin = FilePlugin ''out.txt''\<rparr>"
  let ?p = "demo_parameters (- 1) (GearmanPlugin ''127.0.0.1'' ''mesos'' (Some not_json))"
  let ?e = "OtherException ''No JSON object could be decoded''"
  have bad: "json_loads demo_env not_json = Inl ?e"
    by (simp add: demo_env_def demo_loads_def demo_query_def demo_extra_def not_json_def)
  have 1: "json_loads demo_env (query ?q) = Inl ?e"
    using bad by simp
  have 2: "plugin ?p = GearmanPlugin ''127.0.0.1'' ''mesos'' (Some not_json)
             \<and> json_loads demo_env not_json = Inl ?e"
    using bad by (simp add: demo_parameters_def)
  from malformed_json_failures[of demo_env ?q ?e world0 "''s''" "''j''" "''x''" "''r''" "[]"] 1
  have a: "main demo_env ?q world0 = (print (banner demo_env) world0, Inl ?e)"
    by blast
  from malformed_json_failures[of demo_env ?p ?e world0 "''127.0.0.1''" "''mesos''" not_json
      "''1''" "[''5'']"] 2
  have b: "verify_reviews demo_env [''1'', ''5''] ?p world0
          = (print (''Preparing build job with review id: '' @ ''1'')
               (print (''There are '' @ str_int (int (length [''1'', ''5'']))
                         @ '' review requests that need verification'') world0),
             Inl ?e)"
    by blast
  from a b show ?thesis
    by (simp add: print_def world0_def demo_env_def str_int_digit)
qed

end
